theory Spec2Isabelle
  imports Complex_Main "HOL-Library.Word"
begin

unbundle bit_operations_syntax

section \<open>Python values used by \<open>main.py\<close>\<close>

text \<open>
  The packet handed to \<open>handle_input\<close> is a Python byte string: a list of octets.
  The exceptions the body of \<open>handle_input\<close> can raise are values of \<open>py_error\<close>;
  all of them are subclasses of Python's \<open>Exception\<close>.
\<close>

type_synonym byte = "8 word"

datatype py_error = IndexError | ValueError

subsection \<open>Slices\<close>

text \<open>
  Python's \<open>data[a:b]\<close> with step 1. A negative bound counts from the end, and every
  bound is clamped to the range \<open>0..len(data)\<close>; a slice never raises.
  \<open>data[a:]\<close> is the slice whose upper bound is the length.
\<close>

definition norm_index :: "nat \<Rightarrow> int \<Rightarrow> nat" where
  "norm_index n i = (if i < 0 then nat (max (int n + i) 0) else min (nat i) n)"

definition py_slice :: "'a list \<Rightarrow> int \<Rightarrow> int \<Rightarrow> 'a list" where
  "py_slice xs a b =
     (let lo = norm_index (length xs) a; hi = norm_index (length xs) b
      in take (hi - lo) (drop lo xs))"

definition py_slice_from :: "'a list \<Rightarrow> int \<Rightarrow> 'a list" where
  "py_slice_from xs a = drop (norm_index (length xs) a) xs"

subsection \<open>\<open>int.from_bytes\<close>\<close>

text \<open>
  \<open>int.from_bytes(b, "big")\<close> and \<open>int.from_bytes(b, "big", signed=True)\<close>;
  both give 0 on the empty byte string.
\<close>

definition from_bytes_big :: "byte list \<Rightarrow> int" where
  "from_bytes_big bs = foldl (\<lambda>acc b. acc * 256 + uint b) 0 bs"

definition toInt :: "byte list \<Rightarrow> int" where
  "toInt bs =
     (let u = from_bytes_big bs; w = 8 * length bs
      in if w \<noteq> 0 \<and> 2 ^ (w - 1) \<le> u then u - 2 ^ w else u)"

subsection \<open>\<open>bytes.hex\<close>, string indexing and \<open>int(s, 16)\<close>\<close>

definition hex_digit :: "nat \<Rightarrow> char" where
  "hex_digit k = ''0123456789abcdef'' ! (k mod 16)"

definition hex :: "byte list \<Rightarrow> string" where
  "hex bs = concat (map (\<lambda>b. [hex_digit (unat b div 16), hex_digit (unat b mod 16)]) bs)"

text \<open>\<open>s[i]\<close> for a literal non-negative index: IndexError beyond the end.\<close>

definition str_index :: "string \<Rightarrow> nat \<Rightarrow> py_error + string" where
  "str_index s i = (if i < length s then Inr [s ! i] else Inl IndexError)"

text \<open>
  \<open>int(s, 16)\<close> on a string of hexadecimal digits; any other string is a ValueError.
  (Python also accepts a sign, a \<open>0x\<close> prefix, underscores and surrounding blanks;
  the strings built from \<open>bytes.hex\<close> contain none of them.)
\<close>

definition digit_val :: "char \<Rightarrow> nat option" where
  "digit_val c =
     (let k = of_char c :: nat
      in if 48 \<le> k \<and> k \<le> 57 then Some (k - 48)
         else if 97 \<le> k \<and> k \<le> 102 then Some (k - 87)
         else if 65 \<le> k \<and> k \<le> 70 then Some (k - 55)
         else None)"

fun parse_hex :: "int \<Rightarrow> string \<Rightarrow> int option" where
  "parse_hex acc [] = Some acc"
| "parse_hex acc (c # cs) =
     (case digit_val c of None \<Rightarrow> None | Some v \<Rightarrow> parse_hex (acc * 16 + int v) cs)"

definition int16 :: "string \<Rightarrow> py_error + int" where
  "int16 s = (if s = [] then Inl ValueError
              else case parse_hex 0 s of None \<Rightarrow> Inl ValueError | Some v \<Rightarrow> Inr v)"

section \<open>Python floats\<close>

text \<open>
  A Python float is an IEEE 754 binary64 number, and every arithmetic operation returns
  the exact result rounded to the nearest representable number, ties to even. A finite
  float is modelled by the rational it denotes, and the rounding by \<open>double_round\<close>:
  with \<open>e\<close> the binary exponent of \<open>x\<close> (so that \<open>2 powi e \<le> \<bar>x\<bar> < 2 powi (e + 1)\<close>),
  \<open>x\<close> is rounded to a multiple of \<open>2 powi (e - 52)\<close>, which leaves 53 significant bits.
  The exponent range is not bounded: the numbers computed by \<open>handle_input\<close> are quotients
  of 16-bit integers by the constants of the source and small sums of them, far from
  overflow and from the subnormal range. The sign of zero is not represented.
\<close>

fun bit_len :: "nat \<Rightarrow> nat" where
  "bit_len n = (if n = 0 then 0 else Suc (bit_len (n div 2)))"

declare bit_len.simps [simp del]

definition round_half_even :: "rat \<Rightarrow> int" where
  "round_half_even q =
     (let f = \<lfloor>q\<rfloor>; r = q - of_int f
      in if r < 1 / 2 then f else if 1 / 2 < r then f + 1 else if even f then f else f + 1)"

definition float_exponent :: "rat \<Rightarrow> int" where
  "float_exponent x =
     (let a = \<bar>x\<bar>
      in if 1 \<le> a then int (bit_len (nat \<lfloor>a\<rfloor>)) - 1
         else - int (bit_len (nat (\<lceil>1 / a\<rceil> - 1))))"

definition double_round :: "rat \<Rightarrow> rat" where
  "double_round x =
     (if x = 0 then 0
      else let e = float_exponent x - 52
           in of_int (round_half_even (x / 2 powi e)) * 2 powi e)"

text \<open>
  The operations of the source: \<open>float(i)\<close> (implicit where an \<open>int\<close> meets a float),
  \<open>/\<close>, \<open>*\<close>, \<open>+\<close> and \<open>-\<close>. \<open>int_truediv\<close> is \<open>/\<close> on two \<open>int\<close>s, which Python
  rounds once, from the exact quotient. Every divisor in \<open>handle_input\<close> is a non-zero
  constant, so no division raises ZeroDivisionError.
\<close>

definition float_of_int :: "int \<Rightarrow> rat" where
  "float_of_int i = double_round (of_int i)"

definition int_truediv :: "int \<Rightarrow> int \<Rightarrow> rat" where
  "int_truediv a b = double_round (of_int a / of_int b)"

definition fdiv :: "rat \<Rightarrow> rat \<Rightarrow> rat" where
  "fdiv x y = double_round (x / y)"

definition fmul :: "rat \<Rightarrow> rat \<Rightarrow> rat" where
  "fmul x y = double_round (x * y)"

definition fadd :: "rat \<Rightarrow> rat \<Rightarrow> rat" where
  "fadd x y = double_round (x + y)"

definition fsub :: "rat \<Rightarrow> rat \<Rightarrow> rat" where
  "fsub x y = double_round (x - y)"

section \<open>The decoder: the body of \<open>handle_input\<close>\<close>

definition DEVICE_NAME :: string where "DEVICE_NAME = ''Pokemon PBP''"
definition BATTERY_LEVEL :: nat where "BATTERY_LEVEL = 33"
definition MANUFACTURER_NAME :: nat where "MANUFACTURER_NAME = 49"
definition SOFTWARE_REVISION :: nat where "SOFTWARE_REVISION = 51"
definition INPUT :: nat where "INPUT = 65"

definition JOY_X_MIN :: int where "JOY_X_MIN = 7980"
definition JOY_X_MAX :: int where "JOY_X_MAX = 49620"
definition JOY_Y_MIN :: int where "JOY_Y_MIN = 13350"
definition JOY_Y_MAX :: int where "JOY_Y_MAX = 50280"

text \<open>
  Lines 90 to 92 of \<open>main.py\<close>:
  \<^verbatim>\<open>
  joyX_raw = data[2:4].hex()
  joyX = joyX_raw[3] + joyX_raw[0] + joyX_raw[2] + joyX_raw[1]
  joyX = int(joyX, 16) - JOY_X_MIN
  \<close>
  \<open>joyX_permuted\<close> is the string handed to \<open>int\<close>, \<open>joyX_int\<close> the integer \<open>int\<close> returns.
  These are the only statements of the body that can raise.
\<close>

definition joyX_permuted :: "byte list \<Rightarrow> py_error + string" where
  "joyX_permuted data =
     (let joyX_raw = hex (py_slice data 2 4) in
      (case str_index joyX_raw 3 of Inl e \<Rightarrow> Inl e | Inr c3 \<Rightarrow>
      (case str_index joyX_raw 0 of Inl e \<Rightarrow> Inl e | Inr c0 \<Rightarrow>
      (case str_index joyX_raw 2 of Inl e \<Rightarrow> Inl e | Inr c2 \<Rightarrow>
      (case str_index joyX_raw 1 of Inl e \<Rightarrow> Inl e | Inr c1 \<Rightarrow>
       Inr (c3 @ c0 @ c2 @ c1))))))"

definition joyX_int :: "byte list \<Rightarrow> py_error + int" where
  "joyX_int data = (case joyX_permuted data of Inl e \<Rightarrow> Inl e | Inr s \<Rightarrow> int16 s)"

text \<open>The integer read from \<open>data[4:6]\<close>, before \<open>JOY_Y_MIN\<close> is subtracted (line 96).\<close>

definition joyY_int :: "byte list \<Rightarrow> int" where
  "joyY_int data = from_bytes_big (py_slice data 4 6)"

text \<open>The local variables of the \<open>try\<close> block when it reaches \<open>log_message\<close>.\<close>

record sample =
  time :: int
  top_pressed :: bool
  joy_pressed :: bool
  joyX :: rat
  joyY :: rat
  gyroX :: rat
  gyroY :: rat
  gyroZ :: rat
  gyroW :: rat
  accelX :: rat
  accelY :: rat
  accelZ :: rat

definition handle_input_body :: "byte list \<Rightarrow> py_error + sample" where
  "handle_input_body data =
     (let buttons = from_bytes_big (py_slice data 1 2) in
      case joyX_int data of
        Inl e \<Rightarrow> Inl e
      | Inr x \<Rightarrow>
          Inr \<lparr> time = from_bytes_big (py_slice data 0 1),
                top_pressed = (buttons AND 1 \<noteq> 0),
                joy_pressed = (buttons AND 2 \<noteq> 0),
                joyX = fsub (fmul (float_of_int 2)
                         (int_truediv (x - JOY_X_MIN) (JOY_X_MAX - JOY_X_MIN))) (float_of_int 1),
                joyY = fadd (fmul (float_of_int (- 2))
                         (int_truediv (joyY_int data - JOY_Y_MIN) (JOY_Y_MAX - JOY_Y_MIN)))
                         (float_of_int 1),
                gyroX = fdiv (float_of_int (toInt (py_slice data 6 8))) 5600,
                gyroY = fdiv (float_of_int (toInt (py_slice data 8 10))) 5600,
                gyroZ = fdiv (float_of_int (toInt (py_slice data 10 12))) 5600,
                gyroW = fdiv (float_of_int (toInt (py_slice data 12 14))) 32767,
                accelX = fdiv (float_of_int (toInt (py_slice_from data (- 1)))) 127,
                accelY = fdiv (float_of_int (toInt (py_slice data (- 2) (- 1)))) 127,
                accelZ = fdiv (float_of_int (toInt (py_slice data (- 3) (- 2)))) 127 \<rparr>)"

section \<open>The window: log and start button\<close>

text \<open>
  One constructor for each message of the source; the values interpolated into the
  message are its arguments. \<open>SampleLine\<close> is the line of \<open>handle_input\<close>, with the
  eleven values it prints in the order it prints them (\<open>gyroW\<close> is computed and not
  printed); the layout of the line (widths, two decimals) is not modelled.
  \<open>ParseErrorLine e\<close> is \<open>"Error parsing input: {e}"\<close>.
\<close>

datatype log_line =
    ScanningLine
  | NotFoundLine
  | FoundLine string
  | FailedToConnectLine
  | ConnectedLine
  | ErrorReadingLine string
  | ManufacturerLine string
  | BatteryLine int
  | SoftwareRevLine string
  | ListeningLine
  | StoppedLine
  | SampleLine int bool bool rat rat rat rat rat rat rat rat
  | ParseErrorLine py_error

text \<open>The calls made on the BLE library, in the order they are made.\<close>

datatype ble_call = Scan string | Connect | ReadChar nat | StartNotify nat | StopNotify nat | Disconnect

record app =
  log_lines :: "log_line list"
  start_button_enabled :: bool
  ble_calls :: "ble_call list"

definition log_message :: "log_line \<Rightarrow> app \<Rightarrow> app" where
  "log_message text w = w\<lparr>log_lines := log_lines w @ [text]\<rparr>"

definition setEnabled :: "bool \<Rightarrow> app \<Rightarrow> app" where
  "setEnabled b w = w\<lparr>start_button_enabled := b\<rparr>"

definition ble :: "ble_call \<Rightarrow> app \<Rightarrow> app" where
  "ble c w = w\<lparr>ble_calls := ble_calls w @ [c]\<rparr>"

definition format_sample :: "sample \<Rightarrow> log_line" where
  "format_sample s =
     SampleLine (time s) (top_pressed s) (joy_pressed s) (joyX s) (joyY s)
       (gyroX s) (gyroY s) (gyroZ s) (accelX s) (accelY s) (accelZ s)"

text \<open>
  \<open>handle_input\<close>: the \<open>try\<close> block, and the handler \<open>except Exception\<close>, which catches
  every \<open>py_error\<close>. The argument \<open>sender\<close> is not used by the source.
\<close>

definition handle_input :: "nat \<Rightarrow> byte list \<Rightarrow> app \<Rightarrow> app" where
  "handle_input sender data w =
     (case handle_input_body data of
        Inr s \<Rightarrow> log_message (format_sample s) w
      | Inl e \<Rightarrow> log_message (ParseErrorLine e) w)"

section \<open>The session: \<open>connect_to_device\<close>\<close>

text \<open>
  What the BLE library answers is a parameter of the session: the address of the device
  found by the scan for a name, or none when its timeout of 30 seconds has passed (the
  time itself is not modelled); whether entering the client's context
  raises, and otherwise the value of \<open>is_connected\<close>; for each characteristic the bytes
  read or the exception raised; the result of \<open>bytes.decode\<close>, which raises on bytes
  that are not UTF-8; whether \<open>start_notify\<close> raises. The text of an exception is a string.
\<close>

datatype connect_outcome = ConnectRaises string | Entered bool

record ble_env =
  find_device_by_name :: "string \<Rightarrow> string option"
  connect_outcome :: connect_outcome
  read_gatt_char :: "nat \<Rightarrow> string + byte list"
  decode :: "byte list \<Rightarrow> string + string"
  start_notify_outcome :: "string option"

text \<open>
  While the coroutine sleeps in its \<open>while True\<close> loop, the event loop delivers
  notifications to \<open>handle_input\<close>, until the task is cancelled. The events that arrive
  are a list; when it is used up and no cancellation has come, the coroutine has not
  returned: the outcome is \<open>Listening\<close>.
\<close>

datatype event = Notification "byte list" | Cancelled

datatype outcome = Returned | Raised string | Listening

fun listen :: "event list \<Rightarrow> app \<Rightarrow> app \<times> outcome" where
  "listen [] w = (w, Listening)"
| "listen (Notification data # evs) w = listen evs (handle_input INPUT data w)"
| "listen (Cancelled # evs) w =
     (setEnabled True (log_message StoppedLine (ble (StopNotify INPUT) w)), Returned)"

text \<open>Lines 58 to 61: the three reads inside \<open>try\<close>, in the order of the source.\<close>

definition read_device_info :: "ble_env \<Rightarrow> app \<Rightarrow> app \<times> (string + string \<times> string \<times> int)" where
  "read_device_info env w =
     (let w1 = ble (ReadChar MANUFACTURER_NAME) w in
      case read_gatt_char env MANUFACTURER_NAME of
        Inl e \<Rightarrow> (w1, Inl e)
      | Inr mb \<Rightarrow>
     (case decode env mb of
        Inl e \<Rightarrow> (w1, Inl e)
      | Inr manufacturer \<Rightarrow>
     (let w2 = ble (ReadChar SOFTWARE_REVISION) w1 in
      case read_gatt_char env SOFTWARE_REVISION of
        Inl e \<Rightarrow> (w2, Inl e)
      | Inr sb \<Rightarrow>
     (case decode env sb of
        Inl e \<Rightarrow> (w2, Inl e)
      | Inr software \<Rightarrow>
     (let w3 = ble (ReadChar BATTERY_LEVEL) w2 in
      case read_gatt_char env BATTERY_LEVEL of
        Inl e \<Rightarrow> (w3, Inl e)
      | Inr bb \<Rightarrow> (w3, Inr (manufacturer, software, from_bytes_big bb)))))))"

text \<open>Lines 53 to 80: the block under \<open>async with BleakClient(device) as client\<close>.\<close>

definition with_client :: "ble_env \<Rightarrow> event list \<Rightarrow> bool \<Rightarrow> app \<Rightarrow> app \<times> outcome" where
  "with_client env evs is_connected w =
     (if \<not> is_connected then (log_message FailedToConnectLine w, Returned)
      else
        case read_device_info env (log_message ConnectedLine w) of
          (w1, Inl e) \<Rightarrow> (setEnabled True (log_message (ErrorReadingLine e) w1), Returned)
        | (w1, Inr (manufacturer, software, battery)) \<Rightarrow>
            (let w2 = log_message (SoftwareRevLine software)
                        (log_message (BatteryLine battery)
                          (log_message (ManufacturerLine manufacturer) w1));
                 w3 = ble (StartNotify INPUT) w2
             in case start_notify_outcome env of
                  Some e \<Rightarrow> (w3, Raised e)
                | None \<Rightarrow> listen evs (log_message ListeningLine w3)))"

text \<open>
  \<open>connect_to_device\<close>. Leaving the \<open>async with\<close> block, by \<open>return\<close> or by an
  exception, disconnects the client; a coroutine that is still listening has not left it.
\<close>

definition connect_to_device :: "ble_env \<Rightarrow> event list \<Rightarrow> app \<Rightarrow> app \<times> outcome" where
  "connect_to_device env evs w =
     (let w1 = ble (Scan DEVICE_NAME) (log_message ScanningLine (setEnabled False w)) in
      case find_device_by_name env DEVICE_NAME of
        None \<Rightarrow> (setEnabled True (log_message NotFoundLine w1), Returned)
      | Some address \<Rightarrow>
          (let w2 = ble Connect (log_message (FoundLine address) w1) in
           case connect_outcome env of
             ConnectRaises e \<Rightarrow> (w2, Raised e)
           | Entered is_connected \<Rightarrow>
               (case with_client env evs is_connected w2 of
                  (w3, out) \<Rightarrow> (if out = Listening then w3 else ble Disconnect w3, out))))"

text \<open>The window as \<open>__init__\<close> leaves it: an empty log, the button enabled.\<close>

definition init_app :: app where
  "init_app = \<lparr>log_lines = [], start_button_enabled = True, ble_calls = []\<rparr>"

definition is_sample :: "log_line \<Rightarrow> bool" where
  "is_sample l = (case l of SampleLine t b1 b2 jx jy gx gy gz ax ay az \<Rightarrow> True | _ \<Rightarrow> False)"

definition is_parse_error :: "log_line \<Rightarrow> bool" where
  "is_parse_error l = (case l of ParseErrorLine e \<Rightarrow> True | _ \<Rightarrow> False)"

text \<open>
  Two answers of the BLE library, used to run the session: one where the device is found
  and connected and the read of the software revision raises, one where the device is
  found and the client's context is entered with \<open>is_connected\<close> false.
\<close>

definition read_failure_env :: ble_env where
  "read_failure_env =
     \<lparr>find_device_by_name = (\<lambda>n. if n = DEVICE_NAME then Some ''AA:BB'' else None),
      connect_outcome = Entered True,
      read_gatt_char = (\<lambda>h. if h = SOFTWARE_REVISION then Inl ''read failed'' else Inr [0x41]),
      decode = (\<lambda>b. Inr ''A''),
      start_notify_outcome = None\<rparr>"

definition connect_failure_env :: ble_env where
  "connect_failure_env =
     \<lparr>find_device_by_name = (\<lambda>n. if n = DEVICE_NAME then Some ''AA:BB'' else None),
      connect_outcome = Entered False,
      read_gatt_char = (\<lambda>h. Inr [0x41]),
      decode = (\<lambda>b. Inr ''A''),
      start_notify_outcome = None\<rparr>"

text \<open>
  The specification's reading of lines 90 to 92, to be compared with \<open>joyX_int\<close>:
  nybble \<open>k\<close> of a byte string is its \<open>k\<close>-th hexadecimal digit, the high half of a
  byte before its low half; the raw joystick-X value is the 16-bit number whose digits
  are nybbles 3, 0, 2 and 1 of \<open>data[2:4]\<close>, most significant first.
\<close>

definition spec_nybble :: "byte list \<Rightarrow> nat \<Rightarrow> nat" where
  "spec_nybble bs k =
     (if even k then unat (bs ! (k div 2)) div 16 else unat (bs ! (k div 2)) mod 16)"

definition spec_joyX_raw :: "byte list \<Rightarrow> int" where
  "spec_joyX_raw data =
     (let field = py_slice data 2 4
      in int (4096 * spec_nybble field 3 + 256 * spec_nybble field 0
              + 16 * spec_nybble field 2 + spec_nybble field 1))"

section \<open>Facts about slices, \<open>hex\<close> and \<open>int\<close>\<close>

lemma digit_val_hex_digit:
  assumes "k < 16" shows "digit_val (hex_digit k) = Some k"
proof -
  from assms have "k = 0 \<or> k = 1 \<or> k = 2 \<or> k = 3 \<or> k = 4 \<or> k = 5 \<or> k = 6 \<or> k = 7
    \<or> k = 8 \<or> k = 9 \<or> k = 10 \<or> k = 11 \<or> k = 12 \<or> k = 13 \<or> k = 14 \<or> k = 15"
    by arith
  then show ?thesis
    by (elim disjE) (simp_all add: digit_val_def hex_digit_def)
qed

lemma py_slice_inside:
  assumes "a \<le> b" "b \<le> length xs"
  shows "py_slice xs (int a) (int b) = take (b - a) (drop a xs)"
  using assms by (simp add: py_slice_def norm_index_def min_def)

lemma py_slice_2_4:
  assumes "4 \<le> length data"
  shows "py_slice data 2 4 = [data ! 2, data ! 3]"
proof -
  have "py_slice data (int 2) (int 4) = take (4 - 2) (drop 2 data)"
    using assms by (intro py_slice_inside) auto
  moreover have "take 2 (drop 2 data) = [data ! 2, data ! 3]"
    using assms by (simp add: take_Suc_conv_app_nth numeral_2_eq_2 numeral_3_eq_3)
  ultimately show ?thesis by simp
qed

lemma py_slice_2_4_short:
  assumes "length data < 4"
  shows "length (hex (py_slice data 2 4)) < 4"
proof -
  have "length (py_slice data 2 4) < 2" using assms by (auto simp: py_slice_def norm_index_def min_def)
  moreover have "length (hex bs) = 2 * length bs" for bs
    by (induction bs) (simp_all add: hex_def)
  ultimately show ?thesis by simp
qed

lemma joyX_permuted_short:
  assumes "length data < 4"
  shows "joyX_permuted data = Inl IndexError"
  using py_slice_2_4_short [OF assms] by (simp add: joyX_permuted_def str_index_def Let_def)

lemma joyX_permuted_long:
  assumes "4 \<le> length data"
  shows "joyX_permuted data =
    Inr [hex_digit (unat (data ! 3) mod 16), hex_digit (unat (data ! 2) div 16),
         hex_digit (unat (data ! 3) div 16), hex_digit (unat (data ! 2) mod 16)]"
  by (simp add: joyX_permuted_def py_slice_2_4 [OF assms] hex_def str_index_def)

lemma byte_div_16: "unat (b :: byte) div 16 < 16"
proof -
  have "unat b < 256" using unsigned_less [of b] by simp
  then show ?thesis by simp
qed

lemma joyX_int_long:
  assumes "4 \<le> length data"
  shows "joyX_int data =
    Inr (int (4096 * (unat (data ! 3) mod 16) + 256 * (unat (data ! 2) div 16)
              + 16 * (unat (data ! 3) div 16) + unat (data ! 2) mod 16))"
  by (simp add: joyX_int_def joyX_permuted_long [OF assms] int16_def
      digit_val_hex_digit byte_div_16)

lemma joyX_int_short: "length data < 4 \<Longrightarrow> joyX_int data = Inl IndexError"
  by (simp add: joyX_int_def joyX_permuted_short)

lemma from_bytes_big_single: "from_bytes_big [b] = uint b"
  by (simp add: from_bytes_big_def)

lemma from_bytes_big_pair: "from_bytes_big [a, b] = 256 * uint a + uint b"
  by (simp add: from_bytes_big_def)

lemma toInt_single: "toInt [b] = sint b"
proof -
  have u: "0 \<le> uint b" "uint b < 256" using uint_bounded [of b] by simp_all
  have s: "sint b = (uint b + 128) mod 256 - 128"
    by (simp add: sint_uint signed_take_bit_eq_take_bit_shift take_bit_eq_mod)
  have t: "toInt [b] = (if 128 \<le> uint b then uint b - 256 else uint b)"
    by (simp add: toInt_def from_bytes_big_def)
  show ?thesis
  proof (cases "128 \<le> uint b")
    case True
    then have "(uint b + 128) mod 256 = uint b - 128"
      using u by (intro int_mod_pos_eq [where q = 1]) auto
    with True show ?thesis unfolding s t by simp
  next
    case False
    then have "(uint b + 128) mod 256 = uint b + 128"
      using u by (intro mod_pos_pos_trivial) auto
    with False show ?thesis unfolding s t by simp
  qed
qed

lemma take_1_drop: "i < length xs \<Longrightarrow> take (Suc 0) (drop i xs) = [xs ! i]"
  by (simp add: take_Suc_conv_app_nth)

lemma py_slice_from_last:
  assumes "1 \<le> length xs"
  shows "py_slice_from xs (- 1) = [last xs]"
proof -
  have "norm_index (length xs) (- 1) = length xs - 1"
    using assms by (simp add: norm_index_def nat_diff_distrib)
  moreover have "drop (length xs - 1) xs = [last xs]"
    using assms by (cases xs rule: rev_cases) simp_all
  ultimately show ?thesis by (simp add: py_slice_from_def)
qed

lemma py_slice_m2_m1:
  assumes "2 \<le> length xs"
  shows "py_slice xs (- 2) (- 1) = [xs ! (length xs - 2)]"
proof -
  have "norm_index (length xs) (- 2) = length xs - 2" "norm_index (length xs) (- 1) = length xs - 1"
    using assms by (simp_all add: norm_index_def nat_diff_distrib)
  moreover have "length xs - 1 - (length xs - 2) = Suc 0" using assms by simp
  ultimately show ?thesis using assms by (simp add: py_slice_def take_1_drop)
qed

lemma py_slice_m3_m2:
  assumes "3 \<le> length xs"
  shows "py_slice xs (- 3) (- 2) = [xs ! (length xs - 3)]"
proof -
  have "norm_index (length xs) (- 3) = length xs - 3" "norm_index (length xs) (- 2) = length xs - 2"
    using assms by (simp_all add: norm_index_def nat_diff_distrib)
  moreover have "length xs - 2 - (length xs - 3) = Suc 0" using assms by simp
  ultimately show ?thesis using assms by (simp add: py_slice_def take_1_drop)
qed

lemma py_slice_beyond:
  assumes "0 \<le> a" "int (length xs) \<le> a"
  shows "py_slice xs a b = []"
  using assms by (simp add: py_slice_def norm_index_def)

lemma from_bytes_big_Nil: "from_bytes_big [] = 0"
  by (simp add: from_bytes_big_def)

lemma toInt_Nil: "toInt [] = 0"
  by (simp add: toInt_def from_bytes_big_def)

section \<open>Facts about the rounding of floats\<close>

lemma bit_len_0 [simp]: "bit_len 0 = 0"
  by (simp add: bit_len.simps)

lemma bit_len_1 [simp]: "bit_len (Suc 0) = 1"
  by (simp add: bit_len.simps)

lemma bit_len_bounds: "0 < n \<Longrightarrow> 2 ^ (bit_len n - 1) \<le> n \<and> n < 2 ^ bit_len n"
proof (induction n rule: bit_len.induct)
  case (1 n)
  show ?case
  proof (cases "n div 2 = 0")
    case True
    with 1 have "n = 1" by (cases n) auto 
    then show ?thesis by simp
  next
    case False
    with 1 have IH: "2 ^ (bit_len (n div 2) - 1) \<le> n div 2 \<and> n div 2 < 2 ^ bit_len (n div 2)" by simp
    have bl: "bit_len n = Suc (bit_len (n div 2))" using 1 by (simp add: bit_len.simps[of n])
    have pos: "0 < bit_len (n div 2)" using False by (simp add: bit_len.simps[of "n div 2"])
    then obtain k where k: "bit_len (n div 2) = Suc k" by (cases "bit_len (n div 2)") auto
    from IH show ?thesis unfolding bl k by auto
  qed
qed


lemma pow2_unique:
  fixes a :: rat
  assumes "2 powi e \<le> a" "a < 2 powi (e + 1)" "2 powi e' \<le> a" "a < 2 powi (e' + 1)"
  shows "e = e'"
proof (rule ccontr)
  assume "e \<noteq> e'"
  then consider "e + 1 \<le> e'" | "e' + 1 \<le> e" by linarith
  then show False
  proof cases
    case 1
    then have "(2::rat) powi (e + 1) \<le> 2 powi e'" by (intro power_int_increasing) auto
    with assms show False by linarith
  next
    case 2
    then have "(2::rat) powi (e' + 1) \<le> 2 powi e" by (intro power_int_increasing) auto
    with assms show False by linarith
  qed
qed

lemma float_exponent_bounds:
  assumes "x \<noteq> 0"
  shows "2 powi (float_exponent x) \<le> \<bar>x\<bar> \<and> \<bar>x\<bar> < 2 powi (float_exponent x + 1)"
proof (cases "1 \<le> \<bar>x\<bar>")
  case True
  define n where "n = nat \<lfloor>\<bar>x\<bar>\<rfloor>"
  have fl1: "1 \<le> \<lfloor>\<bar>x\<bar>\<rfloor>" using True by (simp add: le_floor_iff)
  then have npos: "0 < n" by (simp add: n_def)
  have nf: "int n = \<lfloor>\<bar>x\<bar>\<rfloor>" using fl1 by (simp add: n_def)
  from bit_len_bounds [OF npos] have lo: "2 ^ (bit_len n - 1) \<le> n" and hi: "n < 2 ^ bit_len n"
    by auto
  have blpos: "0 < bit_len n" using npos by (simp add: bit_len.simps [of n])
  have e: "float_exponent x = int (bit_len n) - 1"
    using True by (simp add: float_exponent_def n_def)
  have e1: "(2::rat) powi (int (bit_len n) - 1) = 2 ^ (bit_len n - 1)"
    using blpos by (simp add: power_int_def)
  have e2: "(2::rat) powi (int (bit_len n) - 1 + 1) = 2 ^ bit_len n"
    by (simp add: power_int_def)
  have "(of_nat (2 ^ (bit_len n - 1)) :: rat) \<le> of_nat n" using lo by (simp only: of_nat_le_iff)
  also have "(of_nat n :: rat) = of_int \<lfloor>\<bar>x\<bar>\<rfloor>" using nf by (metis of_int_of_nat_eq)
  also have "\<dots> \<le> \<bar>x\<bar>" by (rule of_int_floor_le)
  finally have A: "(2::rat) ^ (bit_len n - 1) \<le> \<bar>x\<bar>" by simp
  have "int n + 1 \<le> 2 ^ bit_len n" using hi by (metis of_nat_less_iff of_nat_numeral of_nat_power zless_imp_add1_zle)
  then have "\<lfloor>\<bar>x\<bar>\<rfloor> + 1 \<le> 2 ^ bit_len n" using nf by simp
  then have "(of_int (\<lfloor>\<bar>x\<bar>\<rfloor> + 1) :: rat) \<le> of_int (2 ^ bit_len n)" by (simp only: of_int_le_iff)
  then have "(of_int (\<lfloor>\<bar>x\<bar>\<rfloor> + 1) :: rat) \<le> 2 ^ bit_len n" by simp
  moreover have "\<bar>x\<bar> < of_int (\<lfloor>\<bar>x\<bar>\<rfloor> + 1)" by linarith
  ultimately have B: "\<bar>x\<bar> < 2 ^ bit_len n" by (rule less_le_trans [rotated])
  show ?thesis unfolding e e1 e2 using A B by simp
next
  case False
  define a where "a = \<bar>x\<bar>"
  have apos: "0 < a" and alt: "a < 1" using assms False by (auto simp: a_def)
  define c where "c = \<lceil>1 / a\<rceil>"
  define n where "n = nat (c - 1)"
  have y1: "1 < 1 / a" using apos alt by (simp add: field_simps)
  then have c2: "2 \<le> c" unfolding c_def by linarith
  then have npos: "0 < n" by (simp add: n_def)
  have nc: "int n = c - 1" using c2 by (simp add: n_def)
  from bit_len_bounds [OF npos] have lo: "2 ^ (bit_len n - 1) \<le> n" and hi: "n < 2 ^ bit_len n"
    by auto
  have blpos: "0 < bit_len n" using npos by (simp add: bit_len.simps [of n])
  have e: "float_exponent x = - int (bit_len n)"
    using False by (simp add: float_exponent_def n_def c_def a_def)
  have e1: "(2::rat) powi (- int (bit_len n)) = 1 / 2 ^ bit_len n"
    by (simp add: power_int_def field_simps)
  have e2: "(2::rat) powi (- int (bit_len n) + 1) = 1 / 2 ^ (bit_len n - 1)"
    using blpos by (cases "bit_len n") (simp_all add: power_int_def field_simps)
  have "int n + 1 \<le> 2 ^ bit_len n" using hi by (metis of_nat_less_iff of_nat_numeral of_nat_power zless_imp_add1_zle)
  then have "c \<le> 2 ^ bit_len n" using nc by simp
  then have "(of_int c :: rat) \<le> of_int (2 ^ bit_len n)" by (simp only: of_int_le_iff)
  then have "(of_int c :: rat) \<le> 2 ^ bit_len n" by simp
  moreover have "1 / a \<le> of_int c" unfolding c_def by (rule le_of_int_ceiling)
  ultimately have "1 / a \<le> 2 ^ bit_len n" by (rule order_trans [rotated])
  then have A: "1 / 2 ^ bit_len n \<le> a" using apos by (simp add: field_simps)
  have "int (2 ^ (bit_len n - 1)) \<le> int n" using lo by (simp only: of_nat_le_iff)
  then have "2 ^ (bit_len n - 1) \<le> c - 1" using nc by simp
  then have "(of_int (2 ^ (bit_len n - 1)) :: rat) \<le> of_int (c - 1)" by (simp only: of_int_le_iff)
  then have "(2::rat) ^ (bit_len n - 1) \<le> of_int (c - 1)" by simp
  moreover have "of_int (c - 1) < 1 / a" unfolding c_def by linarith
  ultimately have "2 ^ (bit_len n - 1) < 1 / a" by (rule le_less_trans)
  then have B: "a < 1 / 2 ^ (bit_len n - 1)" using apos by (simp add: field_simps)
  show ?thesis unfolding e e1 e2 using A B by (simp add: a_def)
qed

lemma float_exponent_double:
  assumes "x \<noteq> 0"
  shows "float_exponent (2 * x) = float_exponent x + 1"
proof -
  have x2: "2 * x \<noteq> 0" using assms by simp
  note b1 = float_exponent_bounds [OF assms]
  note b2 = float_exponent_bounds [OF x2]
  have p: "(2::rat) powi (float_exponent x + 1) = 2 * 2 powi float_exponent x"
    by (simp add: power_int_add)
  have p2: "(2::rat) powi (float_exponent x + 1 + 1) = 2 * 2 powi (float_exponent x + 1)"
    by (simp add: power_int_add)
  have a: "\<bar>2 * x\<bar> = 2 * \<bar>x\<bar>" by (simp add: abs_mult)
  have "2 powi (float_exponent x + 1) \<le> \<bar>2 * x\<bar>" unfolding p a using b1 by simp
  moreover have "\<bar>2 * x\<bar> < 2 powi (float_exponent x + 1 + 1)" unfolding p2 a using b1 by simp
  ultimately show ?thesis using b2 pow2_unique by blast
qed

lemma double_round_double: "double_round (2 * x) = 2 * double_round x"
proof (cases "x = 0")
  case True then show ?thesis by (simp add: double_round_def)
next
  case False
  define e where "e = float_exponent x - 52"
  have e': "float_exponent (2 * x) - 52 = e + 1"
    using False by (simp add: float_exponent_double e_def)
  have r: "(2::rat) powi (e + 1) = 2 * 2 powi e"
    by (simp add: power_int_add)
  have q: "2 * x / 2 powi (e + 1) = x / 2 powi e"
    unfolding r by simp
  have "double_round (2 * x) = of_int (round_half_even (2 * x / 2 powi (e + 1))) * 2 powi (e + 1)"
    using False unfolding double_round_def Let_def e' by simp
  also have "\<dots> = 2 * (of_int (round_half_even (x / 2 powi e)) * 2 powi e)"
    unfolding q r by simp
  also have "\<dots> = 2 * double_round x"
    using False unfolding double_round_def Let_def e_def by simp
  finally show ?thesis .
qed

lemma round_half_even_of_int: "round_half_even (of_int k) = k"
  by (simp add: round_half_even_def)

lemma floor_neg_nonint:
  fixes q :: rat
  assumes "q \<notin> \<int>"
  shows "\<lfloor>- q\<rfloor> = - \<lfloor>q\<rfloor> - 1"
proof -
  have "of_int \<lfloor>q\<rfloor> \<noteq> q" using assms by (metis Ints_of_int)
  then have "of_int \<lfloor>q\<rfloor> < q" using of_int_floor_le [of q] by linarith
  then have b: "- q < of_int (- \<lfloor>q\<rfloor> - 1) + 1" by simp
  have "q < of_int \<lfloor>q\<rfloor> + 1" by linarith
  then have a: "of_int (- \<lfloor>q\<rfloor> - 1) \<le> - q" by simp
  from a b show ?thesis by (rule floor_unique)
qed

lemma round_half_even_neg: "round_half_even (- q) = - round_half_even q"
proof (cases "q \<in> \<int>")
  case True
  then obtain k where "q = of_int k" by (auto elim: Ints_cases)
  then have "- q = of_int (- k)" by simp
  then show ?thesis unfolding \<open>q = of_int k\<close> by (simp only: round_half_even_of_int)
next
  case False
  define f where "f = \<lfloor>q\<rfloor>"
  define r where "r = q - of_int f"
  have fn: "\<lfloor>- q\<rfloor> = - f - 1" using floor_neg_nonint [OF False] by (simp add: f_def)
  have rn: "- q - of_int (- f - 1) = 1 - r" by (simp add: r_def)
  have "of_int f \<noteq> q" using False by (metis Ints_of_int)
  then have r0: "0 < r" unfolding r_def f_def using of_int_floor_le [of q] by linarith
  have ev: "even (- f - 1) \<longleftrightarrow> odd f" by simp
  show ?thesis
  proof -
    consider "r < 1 / 2" | "1 / 2 < r" | "r = 1 / 2" by linarith
    then show ?thesis
    proof cases
      case 1
      then have "round_half_even q = f" by (simp add: round_half_even_def f_def r_def)
      moreover have "round_half_even (- q) = - f - 1 + 1"
        unfolding round_half_even_def Let_def fn rn using 1 by simp
      ultimately show ?thesis by simp
    next
      case 2
      then have "round_half_even q = f + 1" by (simp add: round_half_even_def f_def r_def)
      moreover have "round_half_even (- q) = - f - 1"
        unfolding round_half_even_def Let_def fn rn using 2 by simp
      ultimately show ?thesis by simp
    next
      case 3
      then have a: "round_half_even q = (if even f then f else f + 1)"
        by (simp add: round_half_even_def f_def r_def)
      have b: "round_half_even (- q) = (if odd f then - f - 1 else - f - 1 + 1)"
        unfolding round_half_even_def Let_def fn rn using 3 by (simp )
      show ?thesis unfolding a b by simp
    qed
  qed
qed

lemma double_round_neg: "double_round (- x) = - double_round x"
  by (simp add: double_round_def float_exponent_def Let_def round_half_even_neg)

lemma round_half_even_bounds:
  "of_int (round_half_even q) - 1 / 2 \<le> q \<and> q \<le> of_int (round_half_even q) + 1 / 2"
proof -
  have "of_int \<lfloor>q\<rfloor> \<le> q" "q < of_int \<lfloor>q\<rfloor> + 1" by linarith+
  then show ?thesis
    unfolding round_half_even_def Let_def by (simp; linarith)
qed

lemma pow2_le_imp_le:
  assumes "(2::rat) powi a \<le> 2 powi b"
  shows "a \<le> b"
proof (rule ccontr)
  assume "\<not> a \<le> b"
  then have "b < a" by simp
  then have "(2::rat) powi b < 2 powi a" by (intro power_int_strict_increasing) auto
  with assms show False by simp
qed

lemma pow2_nonneg_int: "0 \<le> m \<Longrightarrow> (2::rat) powi m = of_int (2 ^ nat m)"
  by (simp add: power_int_def)

lemma double_round_representable:
  assumes k: "\<bar>k\<bar> \<le> 2 ^ 53"
  shows "double_round (of_int k * 2 powi j) = of_int k * 2 powi j"
proof (cases "k = 0")
  case True then show ?thesis by (simp add: double_round_def)
next
  case False
  define x :: rat where "x = of_int k * 2 powi j"
  have x0: "x \<noteq> 0" using False by (simp add: x_def)
  define E where "E = float_exponent x"
  from float_exponent_bounds [OF x0]
  have lo: "2 powi E \<le> \<bar>x\<bar>" and hi: "\<bar>x\<bar> < 2 powi (E + 1)" by (auto simp: E_def)
  have ax: "\<bar>x\<bar> = of_int \<bar>k\<bar> * 2 powi j" by (simp add: x_def abs_mult)
  have "(of_int \<bar>k\<bar> :: rat) \<le> of_int (2 ^ 53)" using k by (simp only: of_int_le_iff)
  then have "\<bar>x\<bar> \<le> 2 ^ 53 * 2 powi j" unfolding ax by (intro mult_right_mono) auto
  also have "\<dots> = 2 powi (53 + j)" by (simp add: power_int_add)
  finally have "(2::rat) powi E \<le> 2 powi (53 + j)" using lo by linarith
  then have Ele: "E \<le> 53 + j" by (rule pow2_le_imp_le)
  have split: "2 powi j = 2 powi (j + 52 - E) * (2::rat) powi (E - 52)"
    by (simp flip: power_int_add)
  have "\<exists>m. x / 2 powi (E - 52) = of_int m"
  proof (cases "E \<le> 52 + j")
    case True
    then have "0 \<le> j + 52 - E" by simp
    then have "(2::rat) powi (j + 52 - E) = of_int (2 ^ nat (j + 52 - E))" by (rule pow2_nonneg_int)
    then have "x / 2 powi (E - 52) = of_int (k * 2 ^ nat (j + 52 - E))"
      unfolding x_def split by simp
    then show ?thesis by blast
  next
    case False
    with Ele have E: "E = 53 + j" by simp
    have "(2::rat) powi (53 + j) = 2 ^ 53 * 2 powi j" by (simp add: power_int_add)
    with lo have "2 ^ 53 * 2 powi j \<le> of_int \<bar>k\<bar> * (2::rat) powi j" unfolding ax E by simp
    then have "(2::rat) ^ 53 \<le> of_int \<bar>k\<bar>" by (simp add: mult_le_cancel_right)
    then have "(of_int (2 ^ 53) :: rat) \<le> of_int \<bar>k\<bar>" by simp
    then have "2 ^ 53 \<le> \<bar>k\<bar>" by (simp only: of_int_le_iff)
    with k have "\<bar>k\<bar> = 2 ^ 53" by simp
    then have "k = 2 ^ 53 \<or> k = - (2 ^ 53)" by linarith
    then have "even k" by auto
    then have "k = 2 * (k div 2)" by simp
    then have kk: "(of_int k :: rat) = 2 * of_int (k div 2)" by (metis of_int_mult of_int_numeral)
    have pe: "(2::rat) powi (E - 52) = 2 * 2 powi j" unfolding E by (simp add: power_int_add)
    have "x / 2 powi (E - 52) = of_int (k div 2)"
      unfolding x_def kk pe by simp
    then show ?thesis by blast
  qed
  then obtain m where m: "x / 2 powi (E - 52) = of_int m" by blast
  then have xm: "of_int m * 2 powi (E - 52) = x" by (simp add: field_simps)
  have "double_round x = of_int (round_half_even (x / 2 powi (E - 52))) * 2 powi (E - 52)"
    using x0 by (simp add: double_round_def E_def Let_def)
  also have "\<dots> = x" unfolding m round_half_even_of_int by (rule xm)
  finally show ?thesis by (simp add: x_def)
qed

lemma double_round_mantissa:
  assumes "x \<noteq> 0"
  shows "\<bar>round_half_even (x / 2 powi (float_exponent x - 52))\<bar> \<le> 2 ^ 53"
proof -
  define e where "e = float_exponent x - 52"
  define q where "q = x / 2 powi e"
  from float_exponent_bounds [OF assms]
  have hi: "\<bar>x\<bar> < 2 powi (e + 53)" by (simp add: e_def add.commute)
  have "(2::rat) powi (e + 53) = 2 ^ 53 * 2 powi e" by (simp add: power_int_add)
  with hi have "\<bar>x\<bar> / 2 powi e < 2 ^ 53" by (simp add: field_simps)
  then have aq: "\<bar>q\<bar> < 2 ^ 53" by (simp add: q_def)
  from round_half_even_bounds [of q]
  have "\<bar>(of_int (round_half_even q) :: rat)\<bar> \<le> \<bar>q\<bar> + 1 / 2" by linarith
  with aq have "\<bar>(of_int (round_half_even q) :: rat)\<bar> < of_int (2 ^ 53) + 1 / 2" by simp
  then have "(of_int \<bar>round_half_even q\<bar> :: rat) < of_int (2 ^ 53 + 1)" by simp
  then have "\<bar>round_half_even q\<bar> < 2 ^ 53 + 1" by (simp only: of_int_less_iff)
  then show ?thesis by (simp add: q_def e_def)
qed

lemma double_round_idem: "double_round (double_round x) = double_round x"
proof (cases "x = 0")
  case True then show ?thesis by (simp add: double_round_def)
next
  case False
  have "double_round x = of_int (round_half_even (x / 2 powi (float_exponent x - 52))) * 2 powi (float_exponent x - 52)"
    using False by (simp add: double_round_def Let_def)
  then show ?thesis using double_round_representable [OF double_round_mantissa [OF False]] by simp
qed



text \<open>
  The rounding is to nearest: its error is at most half a unit in the last place, and by
  \<open>double_round_representable\<close> a number of at most 53 significant bits is not changed.
  The float written \<open>0.1\<close> is the known one.
\<close>

lemma double_round_error:
  "\<bar>double_round x - x\<bar> \<le> 2 powi (float_exponent x - 53)"
proof (cases "x = 0")
  case True
  then show ?thesis by (simp add: double_round_def)
next
  case False
  define u :: rat where "u = 2 powi (float_exponent x - 52)"
  define q where "q = x / u"
  have upos: "0 < u" by (simp add: u_def)
  have half: "2 powi (float_exponent x - 53) = u / 2"
    by (simp add: u_def power_int_diff)
  have x: "x = q * u" using upos by (simp add: q_def)
  have d: "double_round x = of_int (round_half_even q) * u"
    using False by (simp add: double_round_def Let_def u_def q_def)
  from round_half_even_bounds [of q]
  have "\<bar>of_int (round_half_even q) - q\<bar> \<le> 1 / 2" by linarith
  then have "\<bar>of_int (round_half_even q) - q\<bar> * u \<le> 1 / 2 * u"
    using upos by (intro mult_right_mono) auto
  moreover have "\<bar>double_round x - x\<bar> = \<bar>of_int (round_half_even q) - q\<bar> * u"
    unfolding d using upos by (subst x) (simp add: abs_mult flip: left_diff_distrib)
  ultimately show ?thesis unfolding half by simp
qed

lemma double_round_tenth: "double_round (1 / 10) = 3602879701896397 / 2 ^ 55"
  by code_simp

text \<open>The float operations of \<open>handle_input\<close> on the values it meets.\<close>

lemma float_of_int_exact:
  assumes "\<bar>i\<bar> \<le> 2 ^ 53"
  shows "float_of_int i = of_int i"
  using double_round_representable [OF assms, of 0] by (simp add: float_of_int_def)

lemma float_of_int_sint: "float_of_int (sint (b :: byte)) = of_int (sint b)"
proof -
  have "- (2 ^ 7) \<le> sint b" "sint b < 2 ^ 7"
    using sint_ge [of b] sint_lt [of b] by simp_all
  then have "\<bar>sint b\<bar> \<le> 2 ^ 53" by simp
  then show ?thesis by (rule float_of_int_exact)
qed

lemma fmul_2: "fmul (float_of_int 2) (double_round q) = double_round (2 * q)"
proof -
  have "float_of_int 2 = 2" using float_of_int_exact [of 2] by simp
  then show ?thesis by (simp add: fmul_def double_round_double double_round_idem)
qed

lemma fmul_minus_2: "fmul (float_of_int (- 2)) (double_round q) = double_round (- 2 * q)"
proof -
  have "float_of_int (- 2) = - 2" using float_of_int_exact [of "- 2"] by simp
  moreover have "double_round (- 2 * double_round q) = - (2 * double_round q)"
    using double_round_neg [of "2 * double_round q"]
    by (simp add: double_round_double double_round_idem)
  moreover have "double_round (- 2 * q) = - (2 * double_round q)"
    using double_round_neg [of "2 * q"] by (simp add: double_round_double)
  ultimately show ?thesis by (simp add: fmul_def)
qed

lemma float_of_int_1: "float_of_int 1 = 1"
  using float_of_int_exact [of 1] by simp

lemma joyX_value:
  "fsub (fmul (float_of_int 2) (int_truediv (x - JOY_X_MIN) (JOY_X_MAX - JOY_X_MIN))) (float_of_int 1)
   = fsub (int_truediv (2 * (x - 7980)) (49620 - 7980)) 1"
  by (simp add: int_truediv_def fmul_2 float_of_int_1 JOY_X_MIN_def JOY_X_MAX_def)

lemma joyY_value:
  "fadd (fmul (float_of_int (- 2)) (int_truediv (y - JOY_Y_MIN) (JOY_Y_MAX - JOY_Y_MIN))) (float_of_int 1)
   = fadd (int_truediv (- 2 * (y - 13350)) (50280 - 13350)) 1"
  by (simp add: int_truediv_def fmul_minus_2 float_of_int_1 JOY_Y_MIN_def JOY_Y_MAX_def)

section \<open>The joystick-X field\<close>

lemma spec_nybble_pair:
  "spec_nybble [a, b] 0 = unat a div 16" "spec_nybble [a, b] (Suc 0) = unat a mod 16"
  "spec_nybble [a, b] 2 = unat b div 16" "spec_nybble [a, b] 3 = unat b mod 16"
  by (simp_all add: spec_nybble_def numeral_3_eq_3)

text \<open>
  Claim C1. For every 14-byte buffer, the string handed to \<open>int\<close> consists of nybbles
  3, 0, 2 and 1 of \<open>data[2:4]\<close>, in this order, and \<open>int\<close> returns the 16-bit unsigned
  number with these four digits.
\<close>

theorem joyX_nybble_permutation:
  assumes "length data = 14"
  shows "joyX_permuted data =
           Inr [hex_digit (spec_nybble (py_slice data 2 4) 3),
                hex_digit (spec_nybble (py_slice data 2 4) 0),
                hex_digit (spec_nybble (py_slice data 2 4) 2),
                hex_digit (spec_nybble (py_slice data 2 4) 1)]
       \<and> joyX_int data = Inr (spec_joyX_raw data)
       \<and> 0 \<le> spec_joyX_raw data \<and> spec_joyX_raw data < 65536"
proof -
  have len: "4 \<le> length data" using assms by simp
  have n: "spec_nybble (py_slice data 2 4) 0 = unat (data ! 2) div 16"
          "spec_nybble (py_slice data 2 4) (Suc 0) = unat (data ! 2) mod 16"
          "spec_nybble (py_slice data 2 4) 2 = unat (data ! 3) div 16"
          "spec_nybble (py_slice data 2 4) 3 = unat (data ! 3) mod 16"
    by (simp_all add: spec_nybble_pair py_slice_2_4 [OF len])
  have b: "unat (data ! 2) div 16 < 16" "unat (data ! 3) div 16 < 16"
    by (rule byte_div_16)+
  have m: "unat (data ! 2) mod 16 < 16" "unat (data ! 3) mod 16 < 16" by simp_all
  have r: "spec_joyX_raw data = int (4096 * (unat (data ! 3) mod 16) + 256 * (unat (data ! 2) div 16)
              + 16 * (unat (data ! 3) div 16) + unat (data ! 2) mod 16)"
    by (simp add: spec_joyX_raw_def Let_def py_slice_2_4 [OF len] spec_nybble_pair)
  have "spec_joyX_raw data < 65536" unfolding r using b m by linarith
  moreover have "0 \<le> spec_joyX_raw data" unfolding r by simp
  ultimately show ?thesis
    using joyX_permuted_long [OF len] joyX_int_long [OF len] by (simp add: n r)
qed

text \<open>The theorem at a buffer whose joystick-X field is \<open>0xAB 0xCD\<close>: the string is \<open>dacb\<close>.\<close>

theorem joyX_nybble_permutation_witness:
  "length [0, 0, 0xAB, 0xCD, 0, 0, 0, 0, 0, 0, 0, 0, 0, 0 :: byte] = 14
   \<and> joyX_permuted [0, 0, 0xAB, 0xCD, 0, 0, 0, 0, 0, 0, 0, 0, 0, 0] = Inr ''dacb''
   \<and> joyX_int [0, 0, 0xAB, 0xCD, 0, 0, 0, 0, 0, 0, 0, 0, 0, 0] = Inr 0xDACB"
  using joyX_nybble_permutation [of "[0, 0, 0xAB, 0xCD, 0, 0, 0, 0, 0, 0, 0, 0, 0, 0]"]
  by (simp add: spec_joyX_raw_def spec_nybble_def py_slice_def norm_index_def hex_digit_def)

text \<open>
  Claim C2, as amended. For the field with bytes \<open>0x12 0x34\<close> the hexadecimal string is
  \<open>1234\<close>; its characters 3, 0, 2 and 1 are \<open>4\<close>, \<open>1\<close>, \<open>3\<close> and \<open>2\<close>, so the permuted string
  is \<open>4132\<close> and the integer is \<open>0x4132 = 16690\<close>.
\<close>

theorem joyX_0x12_0x34:
  assumes "4 \<le> length data" "data ! 2 = 0x12" "data ! 3 = 0x34"
  shows "joyX_permuted data = Inr ''4132'' \<and> joyX_int data = Inr 0x4132 \<and> (0x4132 :: int) = 16690"
  using joyX_permuted_long [OF assms(1)] joyX_int_long [OF assms(1)] assms(2,3)
  by (simp add: hex_digit_def)

theorem joyX_0x12_0x34_witness:
  "joyX_permuted [0, 0, 0x12, 0x34, 0, 0, 0, 0, 0, 0, 0, 0, 0, 0] = Inr ''4132''
   \<and> joyX_int [0, 0, 0x12, 0x34, 0, 0, 0, 0, 0, 0, 0, 0, 0, 0] = Inr 16690"
  using joyX_0x12_0x34 [of "[0, 0, 0x12, 0x34, 0, 0, 0, 0, 0, 0, 0, 0, 0, 0]"]
  by simp

text \<open>
  Claim C2 as stated gives the string \<open>4123\<close> and the integer 16675; the decoder
  produces neither.
\<close>

theorem joyX_0x12_0x34_counterexample:
  "joyX_permuted [0, 0, 0x12, 0x34, 0, 0, 0, 0, 0, 0, 0, 0, 0, 0] \<noteq> Inr ''4123''
   \<and> joyX_int [0, 0, 0x12, 0x34, 0, 0, 0, 0, 0, 0, 0, 0, 0, 0] \<noteq> Inr 16675"
  by (simp add: joyX_int_def int16_def digit_val_def joyX_permuted_def hex_def py_slice_def
      norm_index_def str_index_def hex_digit_def)


section \<open>The joystick axes\<close>

lemma handle_input_body_ok:
  assumes "joyX_int data = Inr x"
  shows "\<exists>s. handle_input_body data = Inr s
    \<and> joyX s = fsub (int_truediv (2 * (x - 7980)) (49620 - 7980)) 1
    \<and> joyY s = fadd (int_truediv (- 2 * (joyY_int data - 13350)) (50280 - 13350)) 1
    \<and> gyroX s = fdiv (float_of_int (toInt (py_slice data 6 8))) 5600
    \<and> gyroY s = fdiv (float_of_int (toInt (py_slice data 8 10))) 5600
    \<and> gyroZ s = fdiv (float_of_int (toInt (py_slice data 10 12))) 5600
    \<and> gyroW s = fdiv (float_of_int (toInt (py_slice data 12 14))) 32767
    \<and> accelX s = fdiv (float_of_int (toInt (py_slice_from data (- 1)))) 127
    \<and> accelY s = fdiv (float_of_int (toInt (py_slice data (- 2) (- 1)))) 127
    \<and> accelZ s = fdiv (float_of_int (toInt (py_slice data (- 3) (- 2)))) 127
    \<and> time s = from_bytes_big (py_slice data 0 1)
    \<and> top_pressed s = (from_bytes_big (py_slice data 1 2) AND 1 \<noteq> 0)
    \<and> joy_pressed s = (from_bytes_big (py_slice data 1 2) AND 2 \<noteq> 0)"
  using assms by (simp add: handle_input_body_def Let_def joyX_value joyY_value)

lemma spec_joyX_raw_eq:
  assumes "4 \<le> length data"
  shows "joyX_int data = Inr (spec_joyX_raw data)"
  by (simp add: joyX_int_long [OF assms] spec_joyX_raw_def Let_def py_slice_2_4 [OF assms]
      spec_nybble_pair)

lemma joyY_int_long:
  assumes "6 \<le> length data"
  shows "joyY_int data = 256 * uint (data ! 4) + uint (data ! 5)"
proof -
  have "py_slice data (int 4) (int 6) = take (6 - 4) (drop 4 data)"
    using assms by (intro py_slice_inside) auto
  moreover have "take 2 (drop 4 data) = [data ! 4, data ! 5]"
    using assms by (simp add: take_Suc_conv_app_nth numeral_2_eq_2)
  ultimately show ?thesis by (simp add: joyY_int_def from_bytes_big_pair)
qed

lemma double_round_1: "double_round 1 = 1"
  using double_round_representable [of 1 0] by simp

lemma midpoint_X: "fsub (int_truediv (2 * (28800 - 7980)) (49620 - 7980)) 1 = 0"
  by (simp add: fsub_def int_truediv_def double_round_1) (simp add: double_round_def)

lemma midpoint_Y: "fadd (int_truediv (- 2 * (31815 - 13350)) (50280 - 13350)) 1 = 0"
proof -
  have "double_round (- 1) = - 1" using double_round_neg [of 1] by (simp add: double_round_1)
  then show ?thesis
    by (simp add: fadd_def int_truediv_def) (simp add: double_round_def)
qed

text \<open>
  Claim C5. For every 14-byte buffer, with \<open>x\<close> the permuted 16-bit value of bytes 2 and 3
  and \<open>joyY_int data\<close> the big-endian value of bytes 4 and 5, the decoder's joystick values
  are \<open>2 * (x - 7980) / (49620 - 7980) - 1\<close> and \<open>-2 * (y - 13350) / (50280 - 13350) + 1\<close>,
  evaluated as Python evaluates these expressions on floats; at \<open>x = 28800\<close> and
  \<open>y = 31815\<close> both are exactly 0.
\<close>

theorem joystick_normalisation:
  assumes "length data = 14"
  shows "\<exists>x s. joyX_int data = Inr x \<and> x = spec_joyX_raw data
    \<and> joyY_int data = 256 * uint (data ! 4) + uint (data ! 5)
    \<and> handle_input_body data = Inr s
    \<and> joyX s = fsub (int_truediv (2 * (x - 7980)) (49620 - 7980)) 1
    \<and> joyY s = fadd (int_truediv (- 2 * (joyY_int data - 13350)) (50280 - 13350)) 1
    \<and> (x = 28800 \<and> joyY_int data = 31815 \<longrightarrow> joyX s = 0 \<and> joyY s = 0)"
proof -
  have x: "joyX_int data = Inr (spec_joyX_raw data)"
    using assms by (intro spec_joyX_raw_eq) simp
  have y: "joyY_int data = 256 * uint (data ! 4) + uint (data ! 5)"
    using assms by (intro joyY_int_long) simp
  from handle_input_body_ok [OF x] obtain s where s: "handle_input_body data = Inr s"
    "joyX s = fsub (int_truediv (2 * (spec_joyX_raw data - 7980)) (49620 - 7980)) 1"
    "joyY s = fadd (int_truediv (- 2 * (joyY_int data - 13350)) (50280 - 13350)) 1"
    by blast
  have "spec_joyX_raw data = 28800 \<and> joyY_int data = 31815 \<longrightarrow> joyX s = 0 \<and> joyY s = 0"
    using midpoint_X midpoint_Y by (simp add: s(2,3))
  with x y s show ?thesis by blast
qed

text \<open>
  The theorem at the buffer whose bytes 2 to 5 are \<open>0x00 0x87 0x7C 0x47\<close>: the raw values
  are 28800 and 31815, and both axes are 0.
\<close>

theorem joystick_normalisation_witness:
  "length [0, 0, 0x00, 0x87, 0x7C, 0x47, 0, 0, 0, 0, 0, 0, 0, 0 :: byte] = 14
   \<and> joyX_int [0, 0, 0x00, 0x87, 0x7C, 0x47, 0, 0, 0, 0, 0, 0, 0, 0] = Inr 28800
   \<and> joyY_int [0, 0, 0x00, 0x87, 0x7C, 0x47, 0, 0, 0, 0, 0, 0, 0, 0] = 31815
   \<and> \<not> isl (handle_input_body [0, 0, 0x00, 0x87, 0x7C, 0x47, 0, 0, 0, 0, 0, 0, 0, 0])
   \<and> joyX (projr (handle_input_body [0, 0, 0x00, 0x87, 0x7C, 0x47, 0, 0, 0, 0, 0, 0, 0, 0])) = 0
   \<and> joyY (projr (handle_input_body [0, 0, 0x00, 0x87, 0x7C, 0x47, 0, 0, 0, 0, 0, 0, 0, 0])) = 0"
proof -
  let ?d = "[0, 0, 0x00, 0x87, 0x7C, 0x47, 0, 0, 0, 0, 0, 0, 0, 0 :: byte]"
  have x: "spec_joyX_raw ?d = 28800"
    by (simp add: spec_joyX_raw_def Let_def py_slice_def norm_index_def spec_nybble_pair)
  from joystick_normalisation [of ?d] x show ?thesis by auto
qed

lemma zeros_joyX_int: "joyX_int (replicate 14 0) = Inr 0"
  by code_simp

lemma zeros_joyY_int: "joyY_int (replicate 14 0) = 0"
  by code_simp

text \<open>
  Claim C7. On the buffer of fourteen zero bytes both raw values are 0; the decoder returns
  the values of the two formulas, \<open>joyX\<close> below -1 and \<open>joyY\<close> above 1: nothing clamps them.
\<close>

theorem all_zero_buffer_out_of_range:
  "\<not> isl (handle_input_body (replicate 14 0))
   \<and> joyX (projr (handle_input_body (replicate 14 0)))
       = fsub (int_truediv (2 * (0 - 7980)) (49620 - 7980)) 1
   \<and> joyX (projr (handle_input_body (replicate 14 0))) < - 1
   \<and> joyY (projr (handle_input_body (replicate 14 0)))
       = fadd (int_truediv (- 2 * (0 - 13350)) (50280 - 13350)) 1
   \<and> 1 < joyY (projr (handle_input_body (replicate 14 0)))"
proof -
  from handle_input_body_ok [OF zeros_joyX_int] obtain s where
    s: "handle_input_body (replicate 14 0) = Inr s"
       "joyX s = fsub (int_truediv (2 * (0 - 7980)) (49620 - 7980)) 1"
       "joyY s = fadd (int_truediv (- 2 * (joyY_int (replicate 14 0) - 13350)) (50280 - 13350)) 1"
    by blast
  have lo: "fsub (int_truediv (2 * (0 - 7980)) (49620 - 7980)) 1 < - 1"
    by code_simp
  have hi: "1 < fadd (int_truediv (- 2 * (0 - 13350)) (50280 - 13350)) 1"
    by code_simp
  show ?thesis using lo hi by (simp add: s zeros_joyY_int)
qed

section \<open>The accelerometer\<close>

lemma minus_one_over_127: "fdiv (- 1) 127 \<noteq> fdiv 255 127 \<and> fdiv (- 1) 127 < 0 \<and> 0 < fdiv 255 127"
  by code_simp

text \<open>
  Claim C9. The three accelerometer values are the last, the second-to-last and the
  third-to-last byte of the packet, each read as a signed 8-bit integer and divided by
  127.0; a byte \<open>0xFF\<close> gives \<open>-1 / 127.0\<close>, which differs from \<open>255 / 127.0\<close>.
\<close>

theorem accel_signed_bytes:
  assumes "4 \<le> length data"
  shows "\<exists>s. handle_input_body data = Inr s
    \<and> accelX s = fdiv (of_int (sint (last data))) 127
    \<and> accelY s = fdiv (of_int (sint (data ! (length data - 2)))) 127
    \<and> accelZ s = fdiv (of_int (sint (data ! (length data - 3)))) 127
    \<and> (last data = 0xFF \<longrightarrow> accelX s = fdiv (- 1) 127 \<and> accelX s \<noteq> fdiv 255 127)
    \<and> (data ! (length data - 2) = 0xFF \<longrightarrow> accelY s = fdiv (- 1) 127 \<and> accelY s \<noteq> fdiv 255 127)
    \<and> (data ! (length data - 3) = 0xFF \<longrightarrow> accelZ s = fdiv (- 1) 127 \<and> accelZ s \<noteq> fdiv 255 127)"
proof -
  have x: "joyX_int data = Inr (spec_joyX_raw data)"
    using assms by (rule spec_joyX_raw_eq)
  have sl: "py_slice_from data (- 1) = [last data]"
    "py_slice data (- 2) (- 1) = [data ! (length data - 2)]"
    "py_slice data (- 3) (- 2) = [data ! (length data - 3)]"
    using py_slice_from_last [of data] py_slice_m2_m1 [of data] py_slice_m3_m2 [of data] assms
    by simp_all
  from handle_input_body_ok [OF x] obtain s where s: "handle_input_body data = Inr s"
    "accelX s = fdiv (float_of_int (toInt (py_slice_from data (- 1)))) 127"
    "accelY s = fdiv (float_of_int (toInt (py_slice data (- 2) (- 1)))) 127"
    "accelZ s = fdiv (float_of_int (toInt (py_slice data (- 3) (- 2)))) 127"
    by blast
  have a: "accelX s = fdiv (of_int (sint (last data))) 127"
    "accelY s = fdiv (of_int (sint (data ! (length data - 2)))) 127"
    "accelZ s = fdiv (of_int (sint (data ! (length data - 3)))) 127"
    by (simp_all add: s sl toInt_single float_of_int_sint)
  have ff: "sint (0xFF :: byte) = - 1" by simp
  show ?thesis using s(1) a minus_one_over_127 by (auto simp: ff)
qed

text \<open>The theorem at a 14-byte packet whose last three bytes are \<open>0xFF\<close>.\<close>

theorem accel_signed_bytes_witness:
  "4 \<le> length [0, 0, 0, 0, 0, 0, 0, 0, 0, 0, 0, 0xFF, 0xFF, 0xFF :: byte]
   \<and> length [0, 0, 0, 0, 0, 0, 0, 0, 0, 0, 0, 0xFF, 0xFF, 0xFF :: byte] = 14
   \<and> accelX (projr (handle_input_body [0, 0, 0, 0, 0, 0, 0, 0, 0, 0, 0, 0xFF, 0xFF, 0xFF]))
       = fdiv (- 1) 127
   \<and> accelY (projr (handle_input_body [0, 0, 0, 0, 0, 0, 0, 0, 0, 0, 0, 0xFF, 0xFF, 0xFF]))
       = fdiv (- 1) 127
   \<and> accelZ (projr (handle_input_body [0, 0, 0, 0, 0, 0, 0, 0, 0, 0, 0, 0xFF, 0xFF, 0xFF]))
       = fdiv (- 1) 127
   \<and> fdiv (- 1) 127 \<noteq> fdiv 255 127"
  using accel_signed_bytes [of "[0, 0, 0, 0, 0, 0, 0, 0, 0, 0, 0, 0xFF, 0xFF, 0xFF]"]
  by auto


section \<open>Notifications\<close>

lemma handle_input_body_short:
  assumes "length data < 4"
  shows "handle_input_body data = Inl IndexError"
  by (simp add: handle_input_body_def joyX_int_short [OF assms])

lemma handle_input_body_long:
  assumes "4 \<le> length data"
  shows "\<exists>s. handle_input_body data = Inr s"
  using handle_input_body_ok [OF spec_joyX_raw_eq [OF assms]] by blast

lemma handle_input_body_isl: "isl (handle_input_body data) = (length data < 4)"
proof (cases "length data < 4")
  case True
  then show ?thesis by (simp add: handle_input_body_short)
next
  case False
  then have "4 \<le> length data" by simp
  from handle_input_body_long [OF this] obtain s where "handle_input_body data = Inr s" ..
  with False show ?thesis by simp
qed

lemma handle_input_short:
  assumes "length data < 4"
  shows "handle_input sender data w = log_message (ParseErrorLine IndexError) w"
  by (simp add: handle_input_def handle_input_body_short [OF assms])

lemma handle_input_ok:
  assumes "handle_input_body data = Inr s"
  shows "handle_input sender data w = log_message (format_sample s) w"
  by (simp add: handle_input_def assms)

lemma is_sample_format [simp]: "is_sample (format_sample s)" "\<not> is_parse_error (format_sample s)"
  by (simp_all add: is_sample_def is_parse_error_def format_sample_def)

lemma is_parse_error_line [simp]: "is_parse_error (ParseErrorLine e)" "\<not> is_sample (ParseErrorLine e)"
  by (simp_all add: is_sample_def is_parse_error_def)

lemma handle_input_appends:
  "\<exists>line. handle_input sender data w = log_message line w
      \<and> (is_sample line \<or> is_parse_error line)"
  by (cases "handle_input_body data") (auto simp: handle_input_def)

lemma log_message_fields [simp]:
  "log_lines (log_message l w) = log_lines w @ [l]"
  "start_button_enabled (log_message l w) = start_button_enabled w"
  "ble_calls (log_message l w) = ble_calls w"
  by (simp_all add: log_message_def)

lemma handle_input_fields:
  "length (log_lines (handle_input sender data w)) = Suc (length (log_lines w))"
  "butlast (log_lines (handle_input sender data w)) = log_lines w"
  "start_button_enabled (handle_input sender data w) = start_button_enabled w"
  "ble_calls (handle_input sender data w) = ble_calls w"
  using handle_input_appends [of sender data w] by auto

lemma listen_notifications:
  "listen (map Notification ds @ evs) w
     = listen evs (foldl (\<lambda>w d. handle_input INPUT d w) w ds)"
  by (induction ds arbitrary: w) simp_all

lemma foldl_handle_input_length:
  "length (log_lines (foldl (\<lambda>w d. handle_input sender d w) w ds)) = length (log_lines w) + length ds"
  by (induction ds arbitrary: w) (simp_all add: handle_input_fields)

lemma foldl_handle_input_fields:
  "start_button_enabled (foldl (\<lambda>w d. handle_input sender d w) w ds) = start_button_enabled w"
  "ble_calls (foldl (\<lambda>w d. handle_input sender d w) w ds) = ble_calls w"
  by (induction ds arbitrary: w) (simp_all add: handle_input_fields)

text \<open>
  Claim C6. For every byte buffer, \<open>handle_input\<close> returns (every exception of its body is
  caught by its own handler) with exactly one line appended to the log, a sample line or
  a parse-error line, and with the button and the BLE client untouched. The coroutine goes
  on listening after any notification, malformed or not: a run of notifications leaves one
  line each, and what follows them is processed from the state they leave.
\<close>

theorem handle_input_one_line:
  "(\<exists>line. handle_input sender data w = log_message line w
       \<and> (is_sample line \<or> is_parse_error line))
   \<and> length (log_lines (handle_input sender data w)) = Suc (length (log_lines w))
   \<and> butlast (log_lines (handle_input sender data w)) = log_lines w
   \<and> start_button_enabled (handle_input sender data w) = start_button_enabled w
   \<and> ble_calls (handle_input sender data w) = ble_calls w
   \<and> listen (Notification data # evs) w = listen evs (handle_input INPUT data w)
   \<and> listen (map Notification ds @ evs) w
        = listen evs (foldl (\<lambda>w d. handle_input INPUT d w) w ds)
   \<and> snd (listen (map Notification ds) w) = Listening
   \<and> length (log_lines (fst (listen (map Notification ds) w)))
        = length (log_lines w) + length ds"
proof -
  have "listen (map Notification ds) w = (foldl (\<lambda>w d. handle_input INPUT d w) w ds, Listening)"
    using listen_notifications [of ds "[]" w] by simp
  then show ?thesis
    using handle_input_appends [of sender data w]
    by (simp add: handle_input_fields listen_notifications foldl_handle_input_length)
qed

text \<open>
  Claim C3, as amended. A buffer shorter than 4 bytes makes \<open>joyX_raw[3]\<close> raise
  IndexError, and \<open>handle_input\<close> appends the parse-error line and no sample line.
\<close>

theorem short_packet_parse_error:
  assumes "length data < 4"
  shows "handle_input_body data = Inl IndexError
    \<and> handle_input sender data w = log_message (ParseErrorLine IndexError) w
    \<and> log_lines (handle_input sender data w) = log_lines w @ [ParseErrorLine IndexError]
    \<and> is_parse_error (last (log_lines (handle_input sender data w)))
    \<and> \<not> is_sample (last (log_lines (handle_input sender data w)))"
proof -
  have "length (hex (py_slice data 2 4)) < 4"
    using assms by (rule py_slice_2_4_short)
  then have "str_index (hex (py_slice data 2 4)) 3 = Inl IndexError"
    by (simp add: str_index_def)
  then have "joyX_int data = Inl IndexError"
    by (simp add: joyX_int_def joyX_permuted_def)
  then have body: "handle_input_body data = Inl IndexError"
    by (simp add: handle_input_body_def)
  then have line: "handle_input sender data w = log_message (ParseErrorLine IndexError) w"
    by (simp add: handle_input_def)
  show ?thesis
    unfolding line using body by simp
qed

text \<open>The theorem at a 3-byte buffer, from the window as it starts.\<close>

theorem short_packet_parse_error_witness:
  "length [0, 3, 0 :: byte] < 4
   \<and> handle_input_body [0, 3, 0] = Inl IndexError
   \<and> log_lines (handle_input INPUT [0, 3, 0] init_app) = [ParseErrorLine IndexError]"
  using short_packet_parse_error [of "[0, 3, 0]" INPUT init_app]
  by (simp add: init_app_def)

text \<open>
  Claim C3 as stated fails at a buffer of 13 bytes, one short of a packet: the body raises
  nothing, and the line appended is a sample line.
\<close>

theorem thirteen_bytes_counterexample:
  "length [0, 0, 0, 0, 0, 0, 0, 0, 0, 0, 0, 0, 0 :: byte] < 14
   \<and> \<not> isl (handle_input_body [0, 0, 0, 0, 0, 0, 0, 0, 0, 0, 0, 0, 0])
   \<and> length (log_lines (handle_input INPUT [0, 0, 0, 0, 0, 0, 0, 0, 0, 0, 0, 0, 0] init_app)) = 1
   \<and> is_sample (last (log_lines (handle_input INPUT [0, 0, 0, 0, 0, 0, 0, 0, 0, 0, 0, 0, 0] init_app)))
   \<and> \<not> is_parse_error
         (last (log_lines (handle_input INPUT [0, 0, 0, 0, 0, 0, 0, 0, 0, 0, 0, 0, 0] init_app)))"
proof -
  let ?d = "[0, 0, 0, 0, 0, 0, 0, 0, 0, 0, 0, 0, 0 :: byte]"
  have "4 \<le> length ?d" by simp
  from handle_input_body_long [OF this] obtain s where s: "handle_input_body ?d = Inr s" ..
  show ?thesis using s by (simp add: handle_input_ok [OF s] init_app_def)
qed


section \<open>Buffers shorter than a packet\<close>

lemma py_slice_2_14:
  assumes "2 \<le> length data" "length data \<le> 14"
  shows "py_slice data 2 14 = drop 2 data"
  using assms by (simp add: py_slice_def norm_index_def min_def)

lemma float_of_int_0: "float_of_int 0 = 0"
  by (simp add: float_of_int_def double_round_def)

lemma fdiv_0: "fdiv 0 y = 0"
  by (simp add: fdiv_def double_round_def)

lemma tail_slices_of_drop:
  assumes "5 \<le> length data"
  shows "py_slice_from data (- 1) = py_slice_from (drop 2 data) (- 1)"
    "py_slice data (- 2) (- 1) = py_slice (drop 2 data) (- 2) (- 1)"
    "py_slice data (- 3) (- 2) = py_slice (drop 2 data) (- 3) (- 2)"
proof -
  have l: "3 \<le> length (drop 2 data)" using assms by simp
  have n: "length data - 2 - 3 + 2 = length data - 3" "length data - 2 - 2 + 2 = length data - 2"
    using assms by simp_all
  show "py_slice_from data (- 1) = py_slice_from (drop 2 data) (- 1)"
    using assms l by (simp add: py_slice_from_last)
  show "py_slice data (- 2) (- 1) = py_slice (drop 2 data) (- 2) (- 1)"
    using assms l n by (simp add: py_slice_m2_m1 add.commute)
  show "py_slice data (- 3) (- 2) = py_slice (drop 2 data) (- 3) (- 2)"
    using assms l n by (simp add: py_slice_m3_m2 add.commute)
qed

text \<open>
  Claim C10, as amended. The body raises exactly when the buffer has fewer than 4 bytes.
  A buffer of 4 to 13 bytes gives a sample line; a 2-byte slice that starts at or beyond
  the end of the buffer is empty and decodes to 0; the accelerometer values come from the
  last three bytes present. For 5 to 13 bytes these are the last three bytes of the
  joystick and gyroscope part \<open>data[2:14]\<close>; for 4 bytes only two of them are, and the
  third-to-last byte is \<open>data[1:2]\<close>, the buttons byte.
\<close>

theorem short_buffer_decoding:
  assumes "4 \<le> length data" "length data \<le> 13"
  shows "(\<forall>d. isl (handle_input_body d) = (length d < 4))
    \<and> (\<exists>s. handle_input_body data = Inr s
        \<and> handle_input sender data w = log_message (format_sample s) w
        \<and> (length data \<le> 4 \<longrightarrow> joyY_int data = 0)
        \<and> (length data \<le> 6 \<longrightarrow> toInt (py_slice data 6 8) = 0 \<and> gyroX s = 0)
        \<and> (length data \<le> 8 \<longrightarrow> toInt (py_slice data 8 10) = 0 \<and> gyroY s = 0)
        \<and> (length data \<le> 10 \<longrightarrow> toInt (py_slice data 10 12) = 0 \<and> gyroZ s = 0)
        \<and> (length data \<le> 12 \<longrightarrow> toInt (py_slice data 12 14) = 0 \<and> gyroW s = 0)
        \<and> accelX s = fdiv (of_int (sint (last data))) 127
        \<and> accelY s = fdiv (of_int (sint (data ! (length data - 2)))) 127
        \<and> accelZ s = fdiv (of_int (sint (data ! (length data - 3)))) 127
        \<and> (5 \<le> length data \<longrightarrow>
              py_slice_from data (- 1) = py_slice_from (py_slice data 2 14) (- 1)
            \<and> py_slice data (- 2) (- 1) = py_slice (py_slice data 2 14) (- 2) (- 1)
            \<and> py_slice data (- 3) (- 2) = py_slice (py_slice data 2 14) (- 3) (- 2))
        \<and> (length data = 4 \<longrightarrow>
              py_slice_from data (- 1) = py_slice_from (py_slice data 2 14) (- 1)
            \<and> py_slice data (- 2) (- 1) = py_slice (py_slice data 2 14) (- 2) (- 1)
            \<and> py_slice data (- 3) (- 2) = py_slice data 1 2))"
proof -
  have x: "joyX_int data = Inr (spec_joyX_raw data)"
    using assms(1) by (rule spec_joyX_raw_eq)
  from handle_input_body_ok [OF x] obtain s where s: "handle_input_body data = Inr s"
    "gyroX s = fdiv (float_of_int (toInt (py_slice data 6 8))) 5600"
    "gyroY s = fdiv (float_of_int (toInt (py_slice data 8 10))) 5600"
    "gyroZ s = fdiv (float_of_int (toInt (py_slice data 10 12))) 5600"
    "gyroW s = fdiv (float_of_int (toInt (py_slice data 12 14))) 32767"
    "accelX s = fdiv (float_of_int (toInt (py_slice_from data (- 1)))) 127"
    "accelY s = fdiv (float_of_int (toInt (py_slice data (- 2) (- 1)))) 127"
    "accelZ s = fdiv (float_of_int (toInt (py_slice data (- 3) (- 2)))) 127"
    by blast
  have sl: "py_slice_from data (- 1) = [last data]"
    "py_slice data (- 2) (- 1) = [data ! (length data - 2)]"
    "py_slice data (- 3) (- 2) = [data ! (length data - 3)]"
    using py_slice_from_last [of data] py_slice_m2_m1 [of data] py_slice_m3_m2 [of data] assms
    by simp_all
  have a: "accelX s = fdiv (of_int (sint (last data))) 127"
    "accelY s = fdiv (of_int (sint (data ! (length data - 2)))) 127"
    "accelZ s = fdiv (of_int (sint (data ! (length data - 3)))) 127"
    by (simp_all add: s sl toInt_single float_of_int_sint)
  have y: "length data \<le> 4 \<longrightarrow> joyY_int data = 0"
    by (simp add: joyY_int_def py_slice_beyond from_bytes_big_Nil)
  have g: "length data \<le> 6 \<longrightarrow> toInt (py_slice data 6 8) = 0 \<and> gyroX s = 0"
    "length data \<le> 8 \<longrightarrow> toInt (py_slice data 8 10) = 0 \<and> gyroY s = 0"
    "length data \<le> 10 \<longrightarrow> toInt (py_slice data 10 12) = 0 \<and> gyroZ s = 0"
    "length data \<le> 12 \<longrightarrow> toInt (py_slice data 12 14) = 0 \<and> gyroW s = 0"
    by (simp_all add: s py_slice_beyond toInt_Nil float_of_int_0 fdiv_0)
  have d: "py_slice data 2 14 = drop 2 data"
    using assms by (intro py_slice_2_14) simp_all
  have t5: "5 \<le> length data \<longrightarrow>
              py_slice_from data (- 1) = py_slice_from (py_slice data 2 14) (- 1)
            \<and> py_slice data (- 2) (- 1) = py_slice (py_slice data 2 14) (- 2) (- 1)
            \<and> py_slice data (- 3) (- 2) = py_slice (py_slice data 2 14) (- 3) (- 2)"
    unfolding d using tail_slices_of_drop [of data] by blast
  have t4: "length data = 4 \<longrightarrow>
              py_slice_from data (- 1) = py_slice_from (py_slice data 2 14) (- 1)
            \<and> py_slice data (- 2) (- 1) = py_slice (py_slice data 2 14) (- 2) (- 1)
            \<and> py_slice data (- 3) (- 2) = py_slice data 1 2"
    unfolding d
    by (simp add: py_slice_def py_slice_from_def norm_index_def numeral_2_eq_2 numeral_3_eq_3)
  have e: "\<forall>d. isl (handle_input_body d) = (length d < 4)"
    by (simp add: handle_input_body_isl)
  show ?thesis
    using e s(1) handle_input_ok [OF s(1), of sender w] y g a t5 t4 by blast
qed

text \<open>The theorem at a buffer of 4 bytes and at a buffer of 5 bytes.\<close>

theorem short_buffer_decoding_witness:
  "4 \<le> length [0, 3, 0, 0 :: byte] \<and> length [0, 3, 0, 0 :: byte] \<le> 13
   \<and> \<not> isl (handle_input_body [0, 3, 0, 0])
   \<and> is_sample (last (log_lines (handle_input INPUT [0, 3, 0, 0] init_app)))
   \<and> joyY_int [0, 3, 0, 0] = 0
   \<and> gyroX (projr (handle_input_body [0, 3, 0, 0])) = 0
   \<and> gyroY (projr (handle_input_body [0, 3, 0, 0])) = 0
   \<and> gyroZ (projr (handle_input_body [0, 3, 0, 0])) = 0
   \<and> gyroW (projr (handle_input_body [0, 3, 0, 0])) = 0
   \<and> accelZ (projr (handle_input_body [0, 3, 0, 0])) = fdiv 3 127
   \<and> py_slice [0, 3, 0, 0 :: byte] (- 3) (- 2) = py_slice [0, 3, 0, 0 :: byte] 1 2
   \<and> 5 \<le> length [0, 3, 0, 0, 9 :: byte] \<and> length [0, 3, 0, 0, 9 :: byte] \<le> 13
   \<and> py_slice [0, 3, 0, 0, 9 :: byte] (- 3) (- 2)
       = py_slice (py_slice [0, 3, 0, 0, 9 :: byte] 2 14) (- 3) (- 2)
   \<and> accelZ (projr (handle_input_body [0, 3, 0, 0, 9])) = fdiv 0 127"
  using short_buffer_decoding [of "[0, 3, 0, 0]" INPUT init_app]
    short_buffer_decoding [of "[0, 3, 0, 0, 9]" INPUT init_app]
  by (auto simp: numeral_3_eq_3)

text \<open>
  Claim C10 as stated has the accelerometer values of every buffer of 4 to 13 bytes read
  from joystick or gyroscope bytes. On the 4-byte buffer \<open>00 03 00 00\<close> the value printed
  for \<open>accelZ\<close> is read from the byte 3 at offset 1, the byte that sets both buttons, and
  the joystick part \<open>data[2:14]\<close> holds no such byte.
\<close>

theorem four_byte_buffer_counterexample:
  "4 \<le> length [0, 3, 0, 0 :: byte] \<and> length [0, 3, 0, 0 :: byte] \<le> 13
   \<and> \<not> isl (handle_input_body [0, 3, 0, 0])
   \<and> top_pressed (projr (handle_input_body [0, 3, 0, 0]))
   \<and> joy_pressed (projr (handle_input_body [0, 3, 0, 0]))
   \<and> accelZ (projr (handle_input_body [0, 3, 0, 0])) = fdiv 3 127
   \<and> fdiv 3 127 \<noteq> 0
   \<and> py_slice [0, 3, 0, 0 :: byte] (- 3) (- 2) = [3]
   \<and> py_slice [0, 3, 0, 0 :: byte] 1 2 = [3]
   \<and> py_slice [0, 3, 0, 0 :: byte] 2 14 = [0, 0]
   \<and> py_slice (py_slice [0, 3, 0, 0 :: byte] 2 14) (- 3) (- 2) = []"
proof -
  let ?d = "[0, 3, 0, 0 :: byte]"
  have sl: "py_slice ?d (- 3) (- 2) = [3]" "py_slice ?d 1 2 = [3]" "py_slice ?d 2 14 = [0, 0]"
    "py_slice [0, 0 :: byte] (- 3) (- 2) = []"
    by (simp_all add: py_slice_def norm_index_def)
  have x: "joyX_int ?d = Inr (spec_joyX_raw ?d)" by (rule spec_joyX_raw_eq) simp
  from handle_input_body_ok [OF x] obtain s where s: "handle_input_body ?d = Inr s"
    "accelZ s = fdiv (float_of_int (toInt (py_slice ?d (- 3) (- 2)))) 127"
    "top_pressed s = (from_bytes_big (py_slice ?d 1 2) AND 1 \<noteq> 0)"
    "joy_pressed s = (from_bytes_big (py_slice ?d 1 2) AND 2 \<noteq> 0)"
    by blast
  have b: "from_bytes_big [3] AND 1 \<noteq> 0" "from_bytes_big [3] AND 2 \<noteq> 0"
    by (simp_all add: from_bytes_big_single)
  have f3: "float_of_int 3 = 3" using float_of_int_exact [of 3] by simp
  have z: "accelZ s = fdiv 3 127"
    unfolding s(2) sl(1) by (simp add: toInt_single f3)
  have nz: "fdiv 3 127 \<noteq> 0" by code_simp
  show ?thesis using s(1,3,4) b z nz by (simp add: sl)
qed


section \<open>The session\<close>

lemma setEnabled_fields [simp]:
  "log_lines (setEnabled b w) = log_lines w"
  "start_button_enabled (setEnabled b w) = b"
  "ble_calls (setEnabled b w) = ble_calls w"
  by (simp_all add: setEnabled_def)

lemma ble_fields [simp]:
  "log_lines (ble c w) = log_lines w"
  "start_button_enabled (ble c w) = start_button_enabled w"
  "ble_calls (ble c w) = ble_calls w @ [c]"
  by (simp_all add: ble_def)

text \<open>The reads touch neither the log nor the button, and make only read calls.\<close>

lemma read_device_info_state:
  "\<exists>cs. log_lines (fst (read_device_info env w)) = log_lines w
      \<and> start_button_enabled (fst (read_device_info env w)) = start_button_enabled w
      \<and> ble_calls (fst (read_device_info env w)) = ble_calls w @ cs
      \<and> set cs \<subseteq> {ReadChar MANUFACTURER_NAME, ReadChar SOFTWARE_REVISION, ReadChar BATTERY_LEVEL}"
  by (auto simp: read_device_info_def Let_def split: sum.splits)

lemma read_device_info_fails:
  assumes "isl (read_gatt_char env MANUFACTURER_NAME) \<or> isl (read_gatt_char env SOFTWARE_REVISION)
    \<or> isl (read_gatt_char env BATTERY_LEVEL)"
  shows "\<exists>e. snd (read_device_info env w) = Inl e
    \<and> (Inl e \<in> {read_gatt_char env MANUFACTURER_NAME, read_gatt_char env SOFTWARE_REVISION,
                  read_gatt_char env BATTERY_LEVEL}
       \<or> (\<exists>b. decode env b = Inl e))"
  using assms by (auto simp: read_device_info_def Let_def split: sum.splits)

text \<open>
  Claim C8. After a scan that finds the device and a successful connect, if any of the
  three reads fails, the coroutine returns with one line more than the three of scanning,
  finding and connecting: the error, which is the exception of a read (or of a \<open>decode\<close>
  that came before the failing read). The button is enabled again, the last call on the
  client is the disconnect of the \<open>async with\<close> block, and \<open>start_notify\<close> is never called.
\<close>

theorem read_failure_aborts_session:
  assumes scan: "find_device_by_name env DEVICE_NAME = Some address"
    and conn: "connect_outcome env = Entered True"
    and fail: "isl (read_gatt_char env MANUFACTURER_NAME) \<or> isl (read_gatt_char env SOFTWARE_REVISION)
      \<or> isl (read_gatt_char env BATTERY_LEVEL)"
  shows "\<exists>w' e cs. connect_to_device env evs w = (w', Returned)
    \<and> log_lines w' = log_lines w @ [ScanningLine, FoundLine address, ConnectedLine, ErrorReadingLine e]
    \<and> (Inl e \<in> {read_gatt_char env MANUFACTURER_NAME, read_gatt_char env SOFTWARE_REVISION,
                  read_gatt_char env BATTERY_LEVEL}
       \<or> (\<exists>b. decode env b = Inl e))
    \<and> start_button_enabled w'
    \<and> ble_calls w' = ble_calls w @ cs
    \<and> last cs = Disconnect
    \<and> (\<forall>h. StartNotify h \<notin> set cs)"
proof -
  define w2 where "w2 = log_message ConnectedLine (ble Connect (log_message (FoundLine address)
    (ble (Scan DEVICE_NAME) (log_message ScanningLine (setEnabled False w)))))"
  obtain w3 r where r: "read_device_info env w2 = (w3, r)" by (cases "read_device_info env w2")
  from read_device_info_fails [OF fail, of w2] r obtain e where e: "r = Inl e"
    "Inl e \<in> {read_gatt_char env MANUFACTURER_NAME, read_gatt_char env SOFTWARE_REVISION,
                  read_gatt_char env BATTERY_LEVEL}
       \<or> (\<exists>b. decode env b = Inl e)" by auto
  from read_device_info_state [of env w2] r obtain rs where rs:
    "log_lines w3 = log_lines w2" "start_button_enabled w3 = start_button_enabled w2"
    "ble_calls w3 = ble_calls w2 @ rs"
    "set rs \<subseteq> {ReadChar MANUFACTURER_NAME, ReadChar SOFTWARE_REVISION, ReadChar BATTERY_LEVEL}"
    by auto
  define w' where "w' = ble Disconnect (setEnabled True (log_message (ErrorReadingLine e) w3))"
  have run: "connect_to_device env evs w = (w', Returned)"
    using scan conn r e(1)
    by (simp add: connect_to_device_def with_client_def Let_def w2_def [symmetric] w'_def)
  have "log_lines w' = log_lines w @ [ScanningLine, FoundLine address, ConnectedLine, ErrorReadingLine e]"
    by (simp add: w'_def rs w2_def)
  moreover have "start_button_enabled w'" by (simp add: w'_def)
  moreover have "ble_calls w' = ble_calls w @ ([Scan DEVICE_NAME, Connect] @ rs @ [Disconnect])"
    by (simp add: w'_def rs w2_def)
  moreover have "last ([Scan DEVICE_NAME, Connect] @ rs @ [Disconnect]) = Disconnect" by simp
  moreover have "\<forall>h. StartNotify h \<notin> set ([Scan DEVICE_NAME, Connect] @ rs @ [Disconnect])"
    using rs(4) by auto
  ultimately show ?thesis using run e(2) by blast
qed

text \<open>The theorem on \<open>read_failure_env\<close>, from the window as it starts.\<close>

theorem read_failure_aborts_session_witness:
  "find_device_by_name read_failure_env DEVICE_NAME = Some ''AA:BB''
   \<and> connect_outcome read_failure_env = Entered True
   \<and> isl (read_gatt_char read_failure_env SOFTWARE_REVISION)
   \<and> snd (connect_to_device read_failure_env [Notification [0, 0, 0, 0]] init_app) = Returned
   \<and> log_lines (fst (connect_to_device read_failure_env [Notification [0, 0, 0, 0]] init_app))
       = [ScanningLine, FoundLine ''AA:BB'', ConnectedLine, ErrorReadingLine ''read failed'']
   \<and> start_button_enabled (fst (connect_to_device read_failure_env [Notification [0, 0, 0, 0]] init_app))
   \<and> last (ble_calls (fst (connect_to_device read_failure_env [Notification [0, 0, 0, 0]] init_app)))
       = Disconnect
   \<and> StartNotify INPUT
       \<notin> set (ble_calls (fst (connect_to_device read_failure_env [Notification [0, 0, 0, 0]] init_app)))"
proof -
  have h: "find_device_by_name read_failure_env DEVICE_NAME = Some ''AA:BB''"
    "connect_outcome read_failure_env = Entered True"
    "isl (read_gatt_char read_failure_env MANUFACTURER_NAME) \<or> isl (read_gatt_char read_failure_env SOFTWARE_REVISION)
      \<or> isl (read_gatt_char read_failure_env BATTERY_LEVEL)"
    by (simp_all add: read_failure_env_def)
  from read_failure_aborts_session [OF h, of "[Notification [0, 0, 0, 0]]" init_app]
  obtain w' e cs where
    run: "connect_to_device read_failure_env [Notification [0, 0, 0, 0]] init_app = (w', Returned)"
    and lg: "log_lines w' = log_lines init_app
          @ [ScanningLine, FoundLine ''AA:BB'', ConnectedLine, ErrorReadingLine e]"
    and e: "Inl e \<in> {read_gatt_char read_failure_env MANUFACTURER_NAME,
          read_gatt_char read_failure_env SOFTWARE_REVISION, read_gatt_char read_failure_env BATTERY_LEVEL}
        \<or> (\<exists>b. decode read_failure_env b = Inl e)"
    and en: "start_button_enabled w'"
    and cs: "ble_calls w' = ble_calls init_app @ cs" "last cs = Disconnect"
      "\<forall>h. StartNotify h \<notin> set cs"
    by blast
  from e have "e = ''read failed''"
    by (auto simp: read_failure_env_def split: if_splits)
  with run lg en cs show ?thesis
    by (simp add: init_app_def read_failure_env_def)
qed

text \<open>
  Claim C4 asks that a failed connect logs one line and leaves the button enabled. When
  the device is found and the client is entered with \<open>is_connected\<close> false, the coroutine
  logs the failure, returns and disconnects, but it does not call \<open>setEnabled(True)\<close>:
  the button stays disabled as line 43 left it.
\<close>

theorem connect_failure_leaves_button_disabled:
  assumes scan: "find_device_by_name env DEVICE_NAME = Some address"
    and conn: "connect_outcome env = Entered False"
  shows "connect_to_device env evs w =
     (w\<lparr>log_lines := log_lines w @ [ScanningLine, FoundLine address, FailedToConnectLine],
        start_button_enabled := False,
        ble_calls := ble_calls w @ [Scan DEVICE_NAME, Connect, Disconnect]\<rparr>, Returned)
   \<and> \<not> start_button_enabled (fst (connect_to_device env evs w))"
  using scan conn
  by (simp add: connect_to_device_def with_client_def Let_def log_message_def ble_def setEnabled_def)

text \<open>The theorem on \<open>connect_failure_env\<close>: the button was enabled and ends disabled.\<close>

theorem connect_failure_leaves_button_disabled_witness:
  "find_device_by_name connect_failure_env DEVICE_NAME = Some ''AA:BB''
   \<and> connect_outcome connect_failure_env = Entered False
   \<and> start_button_enabled init_app
   \<and> snd (connect_to_device connect_failure_env [] init_app) = Returned
   \<and> log_lines (fst (connect_to_device connect_failure_env [] init_app))
       = [ScanningLine, FoundLine ''AA:BB'', FailedToConnectLine]
   \<and> \<not> start_button_enabled (fst (connect_to_device connect_failure_env [] init_app))"
  using connect_failure_leaves_button_disabled [of connect_failure_env "''AA:BB''" "[]" init_app]
  by (simp add: connect_failure_env_def init_app_def)

text \<open>
  The other paths that end the session enable the button: no device found (line 48),
  and cancellation while listening (line 80); a failed read does so by claim C8.
\<close>

lemma device_not_found_reenables:
  assumes "find_device_by_name env DEVICE_NAME = None"
  shows "connect_to_device env evs w =
     (w\<lparr>log_lines := log_lines w @ [ScanningLine, NotFoundLine],
        start_button_enabled := True,
        ble_calls := ble_calls w @ [Scan DEVICE_NAME]\<rparr>, Returned)"
  using assms
  by (simp add: connect_to_device_def Let_def log_message_def ble_def setEnabled_def)

lemma cancellation_reenables:
  "listen (Cancelled # evs) w =
     (w\<lparr>log_lines := log_lines w @ [StoppedLine],
        start_button_enabled := True,
        ble_calls := ble_calls w @ [StopNotify INPUT]\<rparr>, Returned)"
  by (simp add: log_message_def ble_def setEnabled_def)

text \<open>
  When entering the client's context raises instead, the exception leaves
  \<open>connect_to_device\<close>: nothing more is logged and the button stays disabled.
\<close>

lemma connect_raises_propagates:
  assumes "find_device_by_name env DEVICE_NAME = Some address"
    and "connect_outcome env = ConnectRaises e"
  shows "connect_to_device env evs w =
     (w\<lparr>log_lines := log_lines w @ [ScanningLine, FoundLine address],
        start_button_enabled := False,
        ble_calls := ble_calls w @ [Scan DEVICE_NAME, Connect]\<rparr>, Raised e)"
  using assms
  by (simp add: connect_to_device_def Let_def log_message_def ble_def setEnabled_def)

end
